theory Spec2Isabelle
  imports Main "HOL-Library.Sublist" "HOL-Library.Word"
begin

unbundle bit_operations_syntax

text \<open>
  The console scripts of mosrs-setup: \<open>setup.py\<close> (the prompt, the setup flow and the
  patch of the startup script) and \<open>access.py\<close> (the cache keys). The functions of
  the source are written as functions on an explicit world; the statements about them
  follow the definitions.
\<close>

section \<open>Byte strings\<close>

text \<open>
  The scripts are Python 2: a \<open>str\<close> is a byte string, modelled as \<^typ>\<open>string\<close>
  (a list of 8-bit characters). The string methods used by the source are written out.
\<close>

definition newline :: char where
  "newline = CHR 0x0A"

text \<open>\<open>str.strip()\<close> without argument removes leading and trailing whitespace bytes.\<close>

definition is_space :: "char \<Rightarrow> bool" where
  "is_space c = (c \<in> {CHR '' '', CHR 0x09, CHR 0x0A, CHR 0x0D, CHR 0x0B, CHR 0x0C})"

definition str_strip :: "string \<Rightarrow> string" where
  "str_strip s = rev (dropWhile is_space (rev (dropWhile is_space s)))"

text \<open>\<open>str.lower()\<close> maps the bytes \<open>A\<close>..\<open>Z\<close> to \<open>a\<close>..\<open>z\<close> and leaves every other byte.\<close>

definition lower_char :: "char \<Rightarrow> char" where
  "lower_char c =
     (let n = (of_char c :: nat) in if 65 \<le> n \<and> n \<le> 90 then char_of (n + 32) else c)"

definition str_lower :: "string \<Rightarrow> string" where
  "str_lower s = map lower_char s"

text \<open>\<open>str.startswith\<close> is \<^const>\<open>prefix\<close> with the arguments swapped.\<close>

definition startswith :: "string \<Rightarrow> string \<Rightarrow> bool" where
  "startswith s p = prefix p s"

text \<open>
  \<open>str.find(sub)\<close>: the lowest index at which \<open>sub\<close> occurs, or \<open>-1\<close>.
\<close>

fun find_from :: "nat \<Rightarrow> string \<Rightarrow> string \<Rightarrow> int" where
  "find_from i [] sub = (if sub = [] then int i else - 1)"
| "find_from i (c # cs) sub =
     (if prefix sub (c # cs) then int i else find_from (Suc i) cs sub)"

definition str_find :: "string \<Rightarrow> string \<Rightarrow> int" where
  "str_find s sub = find_from 0 s sub"

text \<open>
  The slices \<open>s[:i]\<close> and \<open>s[i:]\<close>: a negative index counts from the end and is
  clamped at the start of the string.
\<close>

definition slice_index :: "string \<Rightarrow> int \<Rightarrow> nat" where
  "slice_index s i = (if i < 0 then nat (int (length s) + i) else nat i)"

definition slice_to :: "string \<Rightarrow> int \<Rightarrow> string" where
  "slice_to s i = take (slice_index s i) s"

definition slice_from :: "string \<Rightarrow> int \<Rightarrow> string" where
  "slice_from s i = drop (slice_index s i) s"

text \<open>The lines of a text, split at the newline byte (the terminators removed).\<close>

fun split_lines :: "string \<Rightarrow> string list" where
  "split_lines [] = [[]]"
| "split_lines (c # cs) =
     (if c = newline then [] # split_lines cs
      else (case split_lines cs of [] \<Rightarrow> [[c]] | l # ls \<Rightarrow> (c # l) # ls))"

section \<open>Exceptions, console events and the world\<close>

text \<open>
  Every \<open>raise\<close> of the source is a value. \<open>SetupError\<close> is the class declared in
  \<open>setup.py\<close>; \<open>AuthError\<close> and \<open>GPGError\<close> come from the modules \<open>auth\<close> and
  \<open>gpg\<close>; the arguments of an exception are its \<open>args\<close> tuple.
\<close>

datatype exn =
    SetupError "string list"
  | AuthError "string list"
  | GPGError "string list"
  | EOFError
  | KeyError string
  | OtherError string

text \<open>
  What a run does to the outside is recorded in order: console output (\<open>print\<close> and the
  three message functions of \<open>mosrs.message\<close>), prompts, calls of the collaborating
  modules and accesses to the file system.
\<close>

datatype level = Info | Warning | Todo

datatype event =
    Print string
  | Msg level string
  | Raw_input string
  | Getpass string
  | Preset_passphrase string string
  | Check_rose
  | Start_gpg_agent
  | Check_or_update
  | Path_exists string
  | Grep string string
  | Rename string string
  | Read_file string
  | Write_file string string
  | Copy2 string string
  | Append_file string string

text \<open>
  The world a run works on: the regular files by path, the lines still to be read from
  standard input, and the events so far.
\<close>

record world =
  files :: "string \<rightharpoonup> string"
  stdin :: "string list"
  events :: "event list"

text \<open>
  What the run is given from outside \<open>setup.py\<close>: the host checks of \<open>mosrs.host\<close>,
  the \<open>--debug\<close> flag, the variable \<open>HOME\<close>, and how each call into \<open>auth\<close> and
  \<open>gpg\<close> ends (\<open>None\<close>: it returns; \<open>Some e\<close>: it raises \<open>e\<close>; for
  \<open>gpg.preset_passphrase\<close> by cache key).
\<close>

record env =
  accessdev :: bool
  host :: string
  debugging :: bool
  home :: "string option"
  rose_result :: "exn option"
  agent_result :: "exn option"
  auth_result :: "exn option"
  preset_result :: "string \<Rightarrow> exn option"

definition emit :: "event \<Rightarrow> world \<Rightarrow> world" where
  "emit ev w = w\<lparr>events := events w @ [ev]\<rparr>"

definition info :: "string \<Rightarrow> world \<Rightarrow> world" where
  "info s = emit (Msg Info s)"

definition warning :: "string \<Rightarrow> world \<Rightarrow> world" where
  "warning s = emit (Msg Warning s)"

definition todo :: "string \<Rightarrow> world \<Rightarrow> world" where
  "todo s = emit (Msg Todo s)"

section \<open>The yes/no prompt\<close>

text \<open>
  \<open>raw_input(prompt)\<close> writes the prompt and reads one line without its newline; at
  end of input it raises \<open>EOFError\<close>.
\<close>

definition raw_input :: "string \<Rightarrow> world \<Rightarrow> (exn + string) \<times> world" where
  "raw_input prompt w =
     (case stdin w of
        [] \<Rightarrow> (Inl EOFError, emit (Raw_input prompt) w)
      | l # ls \<Rightarrow> (Inr l, emit (Raw_input prompt) (w\<lparr>stdin := ls\<rparr>)))"

definition prompt_or_default :: "string \<Rightarrow> string \<Rightarrow> world \<Rightarrow> (exn + string) \<times> world" where
  "prompt_or_default prompt dflt w =
     (case raw_input (prompt @ '' ['' @ dflt @ '']: '') w of
        (Inl e, w') \<Rightarrow> (Inl e, w')
      | (Inr r, w') \<Rightarrow>
          (let response = str_strip r
           in (Inr (if response = [] then dflt else response), w')))"

definition account_prompt :: string where
  "account_prompt = ''Do you have a MOSRS account''"

definition answers :: "string list" where
  "answers = [''yes'', ''no'', ''y'', ''n'']"

text \<open>
  The loop \<open>while mosrs_request not in ['yes', 'no', 'y', 'n']\<close> of
  \<open>setup_mosrs_account\<close>; \<open>mosrs_request\<close> starts as \<open>None\<close>. The loop ends with
  the answer in \<open>mosrs_request\<close>, or with the \<open>EOFError\<close> of \<open>raw_input\<close> when the
  input runs out first.
\<close>

function request_loop :: "string option \<Rightarrow> world \<Rightarrow> (exn + string) \<times> world" where
  "request_loop mosrs_request w =
     (case (if mosrs_request \<in> Some ` set answers then mosrs_request else None) of
        Some r \<Rightarrow> (Inr r, w)
      | None \<Rightarrow>
          (case prompt_or_default account_prompt ''yes'' w of
             (Inl e, w') \<Rightarrow> (Inl e, w')
           | (Inr r, w') \<Rightarrow> request_loop (Some (str_lower r)) w'))"
  by pat_completeness auto

termination request_loop
  by (relation "measure (\<lambda>(r, w). length (stdin w))")
     (auto simp: prompt_or_default_def raw_input_def emit_def Let_def
           split: list.splits if_splits)

declare request_loop.simps [simp del]

section \<open>Message texts\<close>

text \<open>
  \<open>textwrap.dedent\<close>: a line of blanks and tabs only becomes empty, then the longest
  run of leading blanks common to the remaining non-empty lines is removed from each.
\<close>

definition is_blank :: "char \<Rightarrow> bool" where
  "is_blank c = (c = CHR '' '' \<or> c = CHR 0x09)"

fun common_prefix :: "string \<Rightarrow> string \<Rightarrow> string" where
  "common_prefix (x # xs) (y # ys) = (if x = y then x # common_prefix xs ys else [])"
| "common_prefix _ _ = []"

fun join_lines :: "string list \<Rightarrow> string" where
  "join_lines [] = []"
| "join_lines [l] = l"
| "join_lines (l # ls) = l @ newline # join_lines ls"

definition dedent :: "string \<Rightarrow> string" where
  "dedent text =
     (let ls = map (\<lambda>l. if list_all is_blank l then [] else l) (split_lines text);
          indents = map (takeWhile is_blank) (filter (\<lambda>l. l \<noteq> []) ls);
          margin = (case indents of [] \<Rightarrow> [] | i # rest \<Rightarrow> foldl common_prefix i rest)
      in join_lines (map (\<lambda>l. if l = [] then l else drop (length margin) l) ls))"

definition gpg_agent_script :: string where
  \<open>gpg_agent_script = dedent (
     ''\<newline>'' @
     ''    # mosrs-setup gpg_agent_script: DO NOT EDIT BETWEEN HERE AND END\<newline>'' @
     ''    function export_gpg_environ {\<newline>'' @
     ''        export GPG_TTY=$(tty)\<newline>'' @
     ''        export GPG_AGENT_INFO="$(gpgconf --list-dirs agent-socket):0:1"\<newline>'' @
     ''    }\<newline>'' @
     ''    function start_gpg_agent {\<newline>'' @
     ''        mkdir -p $HOME/.gnupg\<newline>'' @
     ''        gpg-connect-agent /bye\<newline>'' @
     ''        export_gpg_environ\<newline>'' @
     ''    }\<newline>'' @
     ''    if in_interactive_shell; then\<newline>'' @
     ''        if in_login_shell; then\<newline>'' @
     ''            start_gpg_agent\<newline>'' @
     ''        fi\<newline>'' @
     ''    fi\<newline>'' @
     ''    # mosrs-setup gpg_agent_script: END\<newline>'' @
     ''\<newline>'' @
     ''    '')\<close>

definition relogin_text :: "string \<Rightarrow> string" where
  "relogin_text h = dedent (
     ''\<newline>'' @
     ''        GPG Agent has been added to your startup script. Please log out of '' @ h @
     ''\<newline>'' @
     ''        then back in again to make sure it has been activated.\<newline>'' @
     ''        '')"

definition credentials_text :: string where
  "credentials_text = dedent (
     ''\<newline>'' @
     ''                Please check your credentials. If you have recently reset your password\<newline>'' @
     ''                it may take a bit of time for the server to recognise the new password.\<newline>'' @
     ''                '')"

definition request_account_text :: string where
  "request_account_text = dedent (
     ''\<newline>'' @
     ''            Please send a request for a MOSRS account to your MOSRS Group Sponsor,\<newline>'' @
     ''            copying in the Lead Chief Investigator of your NCI project.\<newline>'' @
     ''            See https://my.nci.org.au for information on your project.\<newline>'' @
     ''            '')"

definition success_text :: string where
  "success_text = dedent (
     ''\<newline>'' @
     ''            You are now able to use Rose and the MOSRS Subversion repositories.\<newline>'' @
     ''            To see a list of available experiments run:\<newline>'' @
     ''\<newline>'' @
     ''                rosie go\<newline>'' @
     ''\<newline>'' @
     ''            Your password will be cached for a maximum of 12 hours.\<newline>'' @
     ''            To store your password again run:\<newline>'' @
     ''\<newline>'' @
     ''                mosrs-auth\<newline>'' @
     ''            '')"

definition rerun_text :: string where
  "rerun_text = ''Once this has been done please run this setup script again.''"

definition support_text :: string where
  \<open>support_text = ''You can ask for help with the ACCESS systems by emailing "help@nci.org.au".''\<close>

definition accessdev_text :: string where
  "accessdev_text = ''This version of mosrs-setup is not intended to run on accessdev.''"

definition welcome_text :: string where
  "welcome_text =
     ''This script will set up your account to use Rose and the MOSRS Subversion repositories\<newline>''"

section \<open>The file system\<close>

text \<open>
  \<open>os.path.join\<close> on two components (POSIX).
\<close>

definition path_join :: "string \<Rightarrow> string \<Rightarrow> string" where
  "path_join a b =
     (if startswith b ''/'' then b
      else if a = [] \<or> last a = CHR ''/'' then a @ b
      else a @ ''/'' @ b)"

definition path_exists :: "string \<Rightarrow> world \<Rightarrow> bool \<times> world" where
  "path_exists p w = (files w p \<noteq> None, emit (Path_exists p) w)"

text \<open>
  The lines \<open>grep\<close> reads: a final newline ends the last line and starts no other.
\<close>

definition grep_lines :: "string \<Rightarrow> string list" where
  "grep_lines text = (let ls = split_lines text in if last ls = [] then butlast ls else ls)"

text \<open>
  \<open>Popen(['grep', pat, path])\<close> followed by \<open>communicate()\<close>, giving the return code:
  0 when some line matches, 1 when none does, 2 when the file cannot be read. Both
  patterns of the source are free of regular-expression operators, so a line of a
  text file matches when it contains the pattern.
\<close>

definition grep :: "string \<Rightarrow> string \<Rightarrow> world \<Rightarrow> int \<times> world" where
  "grep pat p w =
     (case files w p of
        None \<Rightarrow> (2, emit (Grep pat p) w)
      | Some text \<Rightarrow>
          (if \<exists>l \<in> set (grep_lines text). sublist pat l then 0 else 1, emit (Grep pat p) w))"

text \<open>\<open>os.rename\<close> moves the file over the destination in one step.\<close>

definition rename :: "string \<Rightarrow> string \<Rightarrow> world \<Rightarrow> (exn + unit) \<times> world" where
  "rename src dst w =
     (case files w src of
        None \<Rightarrow> (Inl (OtherError ''OSError''), emit (Rename src dst) w)
      | Some c \<Rightarrow>
          (Inr (), emit (Rename src dst) (w\<lparr>files := (files w)(dst \<mapsto> c, src := None)\<rparr>)))"

text \<open>\<open>open(p, 'r')\<close> and \<open>read()\<close>.\<close>

definition read_file :: "string \<Rightarrow> world \<Rightarrow> (exn + string) \<times> world" where
  "read_file p w =
     (case files w p of
        None \<Rightarrow> (Inl (OtherError ''IOError''), emit (Read_file p) w)
      | Some c \<Rightarrow> (Inr c, emit (Read_file p) w))"

text \<open>\<open>open(p, 'w')\<close> and \<open>write(data)\<close>: the file is created or replaced.\<close>

definition write_file :: "string \<Rightarrow> string \<Rightarrow> world \<Rightarrow> (exn + unit) \<times> world" where
  "write_file p data w =
     (Inr (), emit (Write_file p data) (w\<lparr>files := (files w)(p \<mapsto> data)\<rparr>))"

text \<open>\<open>shutil.copy2\<close>: the content of the source under the destination path.\<close>

definition copy2 :: "string \<Rightarrow> string \<Rightarrow> world \<Rightarrow> (exn + unit) \<times> world" where
  "copy2 src dst w =
     (case files w src of
        None \<Rightarrow> (Inl (OtherError ''IOError''), emit (Copy2 src dst) w)
      | Some c \<Rightarrow> (Inr (), emit (Copy2 src dst) (w\<lparr>files := (files w)(dst \<mapsto> c)\<rparr>)))"

text \<open>\<open>open(p, 'a')\<close> and \<open>write(data)\<close>: the data goes after the present content.\<close>

definition append_file :: "string \<Rightarrow> string \<Rightarrow> world \<Rightarrow> (exn + unit) \<times> world" where
  "append_file p data w =
     (Inr (), emit (Append_file p data)
        (w\<lparr>files := (files w)(p \<mapsto> (case files w p of None \<Rightarrow> [] | Some c \<Rightarrow> c) @ data)\<rparr>))"

text \<open>Sequencing: an exception ends the sequence, a value is passed on.\<close>

definition and_then ::
  "(exn + 'a) \<times> world \<Rightarrow> ('a \<Rightarrow> world \<Rightarrow> (exn + 'b) \<times> world) \<Rightarrow> (exn + 'b) \<times> world" where
  "and_then r k = (case r of (Inl e, w) \<Rightarrow> (Inl e, w) | (Inr x, w) \<Rightarrow> k x w)"

section \<open>Patching the startup script\<close>

definition startup_name :: string where
  "startup_name = ''.bashrc''"

definition boilerplate :: string where
  "boilerplate = ''if in_interactive_shell; then''"

definition marker_pattern :: string where
  "marker_pattern = ''mosrs-setup gpg_agent_script''"

text \<open>
  \<open>gpg_startup\<close>. It returns only when the script is already referenced; after a patch
  and when the startup file is missing it raises \<open>SetupError\<close>.
\<close>

definition gpg_startup :: "env \<Rightarrow> world \<Rightarrow> (exn + unit) \<times> world" where
  "gpg_startup e w =
     (case home e of
        None \<Rightarrow> (Inl (KeyError ''HOME''), w)
      | Some hm \<Rightarrow>
          (let startup_path = path_join hm startup_name;
               (ex, w1) = path_exists startup_path w
           in if \<not> ex then
                (Inl (SetupError []),
                 todo ''Please contact the helpdesk.''
                   (warning (''Startup script ~/'' @ startup_name @ '' does not exist.'') w1))
              else
                (let (rc, w2) = grep marker_pattern startup_path w1
                 in if rc = 0 then (Inr (), w2)
                    else
                      (let old_name = startup_name @ ''.old'';
                           old_path = path_join hm old_name;
                           (rc_b, w3) = grep boilerplate startup_path w2
                       in and_then
                            (if rc_b = 0 then
                               and_then (rename startup_path old_path w3) (\<lambda>_ w4.
                               and_then (read_file old_path w4) (\<lambda>old w5.
                                 (let insert_here = str_find old boilerplate;
                                      new = slice_to old insert_here @ gpg_agent_script
                                              @ slice_from old insert_here
                                  in write_file startup_path new w5)))
                             else
                               and_then (copy2 startup_path old_path w3) (\<lambda>_ w4.
                                 append_file startup_path gpg_agent_script w4))
                            (\<lambda>_ w6. (Inl (SetupError []), todo (relogin_text (host e)) w6))))))"

section \<open>The file system during a patch\<close>

text \<open>
  The states the files pass through while \<open>gpg_startup\<close> patches, one per primitive
  step. \<open>rename\<close> is one step. A write reaches the file byte by byte: after
  \<open>open(p, 'w')\<close> the file is empty, then it holds a growing part of the data;
  \<open>copy2\<close> writes its destination in the same way and \<open>open(p, 'a')\<close> grows the
  present content. An interruption, or a write that fails, leaves the files in one of
  these states.
\<close>

type_synonym fs = "string \<rightharpoonup> string"




definition append_states :: "string \<Rightarrow> string \<Rightarrow> fs \<Rightarrow> fs list" where
  "append_states p data f =
     map (\<lambda>k. f(p \<mapsto> (case f p of None \<Rightarrow> [] | Some c \<Rightarrow> c) @ take k data))
       [0..<Suc (length data)]"






section \<open>The setup flow\<close>

text \<open>
  The modules \<open>auth\<close> and \<open>gpg\<close> are not among the sources. A call into them is one
  event and ends as the environment says.
\<close>

definition call :: "event \<Rightarrow> exn option \<Rightarrow> world \<Rightarrow> (exn + unit) \<times> world" where
  "call ev res w = (case res of None \<Rightarrow> (Inr (), emit ev w) | Some ex \<Rightarrow> (Inl ex, emit ev w))"

text \<open>
  Modelled from the spec: \<open>auth.check_rose\<close>, the check that the required client tool
  is installed and configured (section 4.5); the caller handles its \<open>AuthError\<close>.
\<close>

definition auth_check_rose :: "env \<Rightarrow> world \<Rightarrow> (exn + unit) \<times> world" where
  "auth_check_rose e w = call Check_rose (rose_result e) w"

text \<open>
  Modelled from the spec: \<open>gpg.start_gpg_agent\<close>, which makes sure the agent is
  reachable and fails when it is not (section 4.2, \<open>ensureRunning\<close>); the callers handle
  its \<open>GPGError\<close>.
\<close>

definition gpg_start_gpg_agent :: "env \<Rightarrow> world \<Rightarrow> (exn + unit) \<times> world" where
  "gpg_start_gpg_agent e w = call Start_gpg_agent (agent_result e) w"

text \<open>
  Modelled from the spec: \<open>auth.check_or_update\<close>. Section 4.3: one attempt at an
  authenticated request with the credential cached at that moment, which returns or
  fails with \<open>AuthError\<close>; it asks the user nothing and presets nothing.
\<close>

definition auth_check_or_update :: "env \<Rightarrow> world \<Rightarrow> (exn + unit) \<times> world" where
  "auth_check_or_update e w = call Check_or_update (auth_result e) w"


definition check_rose :: "env \<Rightarrow> world \<Rightarrow> (exn + unit) \<times> world" where
  "check_rose e w =
     (case auth_check_rose e w of
        (Inl ex, w') \<Rightarrow> (Inl (case ex of AuthError args \<Rightarrow> SetupError args | _ \<Rightarrow> ex), w')
      | (Inr u, w') \<Rightarrow> (Inr u, w'))"

definition setup_mosrs_account :: "env \<Rightarrow> world \<Rightarrow> (exn + unit) \<times> world" where
  "setup_mosrs_account e w =
     (case gpg_start_gpg_agent e w of
        (Inl ex, w1) \<Rightarrow>
          (case ex of
             GPGError args \<Rightarrow>
               (Inl ex, foldl (\<lambda>w' arg. info arg w')
                          (warning ''GPGError in setup_mosrs_account:'' w1) args)
           | _ \<Rightarrow> (Inl ex, w1))
      | (Inr _, w1) \<Rightarrow>
          and_then (request_loop None w1) (\<lambda>mosrs_request w2.
            if startswith mosrs_request ''y'' then
              (case auth_check_or_update e w2 of
                 (Inl ex, w3) \<Rightarrow>
                   (case ex of
                      AuthError _ \<Rightarrow>
                        (Inl (SetupError []),
                         todo credentials_text
                           (warning ''Authentication check and update failed.'' w3))
                    | _ \<Rightarrow> (Inl ex, w3))
               | (Inr u, w3) \<Rightarrow> (Inr u, w3))
            else (Inl (SetupError []), todo request_account_text w2)))"

text \<open>
  The body of the \<open>try\<close> statement of \<open>main\<close>. It ends with an exception, by running to
  its end, or by the \<open>return\<close> of the handler for \<open>GPGError\<close>, which skips the \<open>else\<close>
  clause.
\<close>

datatype flow = Completed | Returned

definition main_body :: "env \<Rightarrow> world \<Rightarrow> (exn + flow) \<times> world" where
  "main_body e w =
     and_then (check_rose e w) (\<lambda>_ w1.
       (case setup_mosrs_account e w1 of
          (Inl ex, w2) \<Rightarrow>
            (case ex of GPGError _ \<Rightarrow> (Inr Returned, w2) | _ \<Rightarrow> (Inl ex, w2))
        | (Inr _, w2) \<Rightarrow> and_then (gpg_startup e w2) (\<lambda>_ w3. (Inr Completed, w3))))"

text \<open>
  \<open>main\<close>, for a command line that parses (the flag \<open>--debug\<close> only sets
  \<open>message.debugging\<close>). The \<open>finally\<close> clause runs after the handlers, also when an
  exception passes through.
\<close>

definition main :: "env \<Rightarrow> world \<Rightarrow> (exn + unit) \<times> world" where
  "main e w =
     (let w0 = emit (Print []) w
      in if accessdev e then (Inr (), warning accessdev_text w0)
         else
           (let w1 = emit (Print welcome_text) w0;
                (r, w2) = main_body e w1;
                (r', w3) =
                  (case r of
                     Inl ex \<Rightarrow>
                       (case ex of
                          SetupError _ \<Rightarrow> (Inr (), todo rerun_text w2)
                        | _ \<Rightarrow> (Inl ex, w2))
                   | Inr Completed \<Rightarrow> (Inr (), info success_text w2)
                   | Inr Returned \<Rightarrow> (Inr (), w2))
            in (r', info support_text w3)))"

section \<open>MD5\<close>

text \<open>
  \<open>hashlib.md5(s).hexdigest()\<close> on a byte string, after RFC 1321: the message is
  padded to a multiple of 64 bytes, each block of sixteen little-endian words goes
  through 64 rounds, and the four state words are written out as 32 hexadecimal digits.
\<close>

definition md5_K :: "32 word list" where
  "md5_K =
    [0xd76aa478, 0xe8c7b756, 0x242070db, 0xc1bdceee,
     0xf57c0faf, 0x4787c62a, 0xa8304613, 0xfd469501,
     0x698098d8, 0x8b44f7af, 0xffff5bb1, 0x895cd7be,
     0x6b901122, 0xfd987193, 0xa679438e, 0x49b40821,
     0xf61e2562, 0xc040b340, 0x265e5a51, 0xe9b6c7aa,
     0xd62f105d, 0x02441453, 0xd8a1e681, 0xe7d3fbc8,
     0x21e1cde6, 0xc33707d6, 0xf4d50d87, 0x455a14ed,
     0xa9e3e905, 0xfcefa3f8, 0x676f02d9, 0x8d2a4c8a,
     0xfffa3942, 0x8771f681, 0x6d9d6122, 0xfde5380c,
     0xa4beea44, 0x4bdecfa9, 0xf6bb4b60, 0xbebfbc70,
     0x289b7ec6, 0xeaa127fa, 0xd4ef3085, 0x04881d05,
     0xd9d4d039, 0xe6db99e5, 0x1fa27cf8, 0xc4ac5665,
     0xf4292244, 0x432aff97, 0xab9423a7, 0xfc93a039,
     0x655b59c3, 0x8f0ccc92, 0xffeff47d, 0x85845dd1,
     0x6fa87e4f, 0xfe2ce6e0, 0xa3014314, 0x4e0811a1,
     0xf7537e82, 0xbd3af235, 0x2ad7d2bb, 0xeb86d391]"

definition md5_shifts :: "nat list" where
  "md5_shifts =
     [7, 12, 17, 22, 7, 12, 17, 22, 7, 12, 17, 22, 7, 12, 17, 22,
      5, 9, 14, 20, 5, 9, 14, 20, 5, 9, 14, 20, 5, 9, 14, 20,
      4, 11, 16, 23, 4, 11, 16, 23, 4, 11, 16, 23, 4, 11, 16, 23,
      6, 10, 15, 21, 6, 10, 15, 21, 6, 10, 15, 21, 6, 10, 15, 21]"

type_synonym md5_state = "32 word \<times> 32 word \<times> 32 word \<times> 32 word"

definition md5_round :: "32 word list \<Rightarrow> md5_state \<Rightarrow> nat \<Rightarrow> md5_state" where
  "md5_round m st i =
     (case st of (a, b, c, d) \<Rightarrow>
        (let (f, g) =
               (if i < 16 then ((b AND c) OR (NOT b AND d), i)
                else if i < 32 then ((d AND b) OR (NOT d AND c), (5 * i + 1) mod 16)
                else if i < 48 then (b XOR c XOR d, (3 * i + 5) mod 16)
                else (c XOR (b OR NOT d), (7 * i) mod 16));
             f' = f + a + md5_K ! i + m ! g
         in (d, b + word_rotl (md5_shifts ! i) f', b, c)))"

definition le_word :: "char list \<Rightarrow> 32 word" where
  "le_word bs = foldr (\<lambda>c w. push_bit 8 w + word_of_int (of_char c)) bs 0"

fun chunks :: "nat \<Rightarrow> nat \<Rightarrow> 'a list \<Rightarrow> 'a list list" where
  "chunks 0 n xs = []"
| "chunks (Suc k) n xs = take n xs # chunks k n (drop n xs)"

definition md5_block :: "md5_state \<Rightarrow> char list \<Rightarrow> md5_state" where
  "md5_block st block =
     (let m = map le_word (chunks 16 4 block)
      in case (st, foldl (md5_round m) st [0..<64]) of
           ((a0, b0, c0, d0), (a, b, c, d)) \<Rightarrow> (a0 + a, b0 + b, c0 + c, d0 + d))"

definition le_bytes :: "nat \<Rightarrow> 'a::len word \<Rightarrow> char list" where
  "le_bytes n v = map (\<lambda>i. char_of (uint (drop_bit (8 * i) v))) [0..<n]"

definition md5_pad :: "char list \<Rightarrow> char list" where
  "md5_pad msg =
     msg @ CHR 0x80 # replicate ((119 - length msg mod 64) mod 64) (CHR 0x00)
       @ le_bytes 8 (word_of_nat (8 * length msg) :: 64 word)"

definition md5_init :: md5_state where
  "md5_init = (0x67452301, 0xefcdab89, 0x98badcfe, 0x10325476)"

definition md5_digest :: "char list \<Rightarrow> char list" where
  "md5_digest msg =
     (let p = md5_pad msg
      in case foldl md5_block md5_init (chunks (length p div 64) 64 p) of
           (a, b, c, d) \<Rightarrow> concat (map (le_bytes 4) [a, b, c, d]))"

definition hex_digit :: "nat \<Rightarrow> char" where
  "hex_digit n = ''0123456789abcdef'' ! n"

definition hexdigest :: "char list \<Rightarrow> string" where
  "hexdigest bs =
     concat (map (\<lambda>c. [hex_digit (of_char c div 16), hex_digit (of_char c mod 16)]) bs)"

definition md5_hexdigest :: "string \<Rightarrow> string" where
  "md5_hexdigest s = hexdigest (md5_digest s)"

section \<open>The script \<open>access.py\<close>\<close>


definition realm :: string where
  "realm = ''<https://access-svn.nci.org.au:443> AccessCollab''"

definition nemo_realm :: string where
  "nemo_realm = ''<https://access-svn.nci.org.au:443> nemo''"

definition key :: string where
  "key = md5_hexdigest realm"

definition nemo_key :: string where
  "nemo_key = md5_hexdigest nemo_realm"


section \<open>Realm strings\<close>

text \<open>
  Following the words of the specification: a realm descriptor, and its canonical
  string \<open>"<scheme>://<host>:<port> <realm-label>"\<close>, each placeholder standing for a
  field.
\<close>

record realm_descriptor =
  rd_scheme :: string
  rd_host :: string
  rd_port :: string
  rd_label :: string

definition spec_canonical :: "realm_descriptor \<Rightarrow> string" where
  "spec_canonical d = rd_scheme d @ ''://'' @ rd_host d @ '':'' @ rd_port d @ '' '' @ rd_label d"

text \<open>
  The form of the two literals of \<open>access.py\<close>, a Subversion realm string: the URL
  stands between angle brackets.
\<close>

definition svn_realm_string :: "realm_descriptor \<Rightarrow> string" where
  "svn_realm_string d =
     ''<'' @ rd_scheme d @ ''://'' @ rd_host d @ '':'' @ rd_port d @ ''> '' @ rd_label d"

definition access_collab :: realm_descriptor where
  "access_collab =
     \<lparr>rd_scheme = ''https'', rd_host = ''access-svn.nci.org.au'', rd_port = ''443'',
      rd_label = ''AccessCollab''\<rparr>"

definition nemo :: realm_descriptor where
  "nemo =
     \<lparr>rd_scheme = ''https'', rd_host = ''access-svn.nci.org.au'', rd_port = ''443'',
      rd_label = ''nemo''\<rparr>"

section \<open>Notions used in the statements\<close>

text \<open>
  The answer the loop of \<open>setup_mosrs_account\<close> takes from one line of input: stripped,
  the default \<open>yes\<close> for an empty line, in lower case.
\<close>

definition answer_of :: "string \<Rightarrow> string" where
  "answer_of line = str_lower (let r = str_strip line in if r = [] then ''yes'' else r)"

definition full_prompt :: string where
  "full_prompt = account_prompt @ '' ['' @ ''yes'' @ '']: ''"



definition is_file_event :: "event \<Rightarrow> bool" where
  "is_file_event ev =
     (case ev of
        Path_exists _ \<Rightarrow> True | Grep _ _ \<Rightarrow> True | Rename _ _ \<Rightarrow> True | Read_file _ \<Rightarrow> True
      | Write_file _ _ \<Rightarrow> True | Copy2 _ _ \<Rightarrow> True | Append_file _ _ \<Rightarrow> True | _ \<Rightarrow> False)"

text \<open>
  The sentinel marker of the specification, with the name of the tool filled in; the
  first line of \<open>gpg_agent_script\<close> carries it.
\<close>

definition sentinel :: string where
  "sentinel = ''mosrs-setup gpg_agent_script: DO NOT EDIT BETWEEN HERE AND END''"

section \<open>Example inputs\<close>

definition example_env :: env where
  "example_env =
     \<lparr>accessdev = False, host = ''gadi'', debugging = False, home = Some ''/home/abc'',
      rose_result = None, agent_result = None, auth_result = None,
      preset_result = (\<lambda>_. None)\<rparr>"

text \<open>A world with the given startup file and the given lines of input.\<close>

definition example_world :: "string \<Rightarrow> string list \<Rightarrow> world" where
  "example_world text inp =
     \<lparr>files = [''/home/abc/.bashrc'' \<mapsto> text], stdin = inp, events = []\<rparr>"

section \<open>Strings: searching and lines\<close>

lemma prefix_no_newline: "n \<notin> set xs \<Longrightarrow> prefix xs (n # b) \<Longrightarrow> xs = []"
  by (cases xs) auto

lemma sublist_across:
  assumes "n \<notin> set pat"
  shows "sublist pat (a @ n # b) \<longleftrightarrow> sublist pat a \<or> sublist pat b"
proof
  assume "sublist pat (a @ n # b)"
  then consider "sublist pat a" | "sublist pat (n # b)"
    | xs1 xs2 where "pat = xs1 @ xs2" "suffix xs1 a" "prefix xs2 (n # b)"
    by (auto simp: sublist_append)
  then show "sublist pat a \<or> sublist pat b"
  proof cases
    case 1 then show ?thesis by simp
  next
    case 2
    then have "prefix pat (n # b) \<or> sublist pat b" by (simp add: sublist_Cons_right)
    with assms show ?thesis using prefix_no_newline by fastforce
  next
    case 3
    with assms have "xs2 = []" using prefix_no_newline [of n xs2 b] by auto
    with 3 show ?thesis by auto
  qed
next
  assume "sublist pat a \<or> sublist pat b"
  then show "sublist pat (a @ n # b)"
    by (auto simp: sublist_append sublist_Cons_right)
qed

lemma split_lines_no_newline: "newline \<notin> set s \<Longrightarrow> split_lines s = [s]"
  by (induction s) auto

lemma split_lines_append:
  "newline \<notin> set a \<Longrightarrow> split_lines (a @ newline # b) = a # split_lines b"
  by (induction a) auto

lemma split_lines_sublist:
  "newline \<notin> set pat \<Longrightarrow> (\<exists>l \<in> set (split_lines s). sublist pat l) \<longleftrightarrow> sublist pat s"
proof (induction "length s" arbitrary: s rule: less_induct)
  case less
  show ?case
  proof (cases "newline \<in> set s")
    case False
    then show ?thesis by (simp add: split_lines_no_newline)
  next
    case True
    then obtain a b where s: "s = a @ newline # b" and a: "newline \<notin> set a"
      by (auto dest: split_list_first)
    have "(\<exists>l \<in> set (split_lines b). sublist pat l) \<longleftrightarrow> sublist pat b"
      using less.hyps [of b] less.prems s by simp
    then show ?thesis
      using less.prems a by (simp add: s split_lines_append sublist_across)
  qed
qed

lemma split_lines_nonempty: "split_lines s \<noteq> []"
  by (induction s) (auto split: list.splits)

lemma grep_lines_sublist:
  assumes "newline \<notin> set pat" "pat \<noteq> []"
  shows "(\<exists>l \<in> set (grep_lines s). sublist pat l) \<longleftrightarrow> sublist pat s"
proof -
  have "(\<exists>l \<in> set (grep_lines s). sublist pat l) \<longleftrightarrow> (\<exists>l \<in> set (split_lines s). sublist pat l)"
  proof (cases "last (split_lines s) = []")
    case False
    then show ?thesis by (simp add: grep_lines_def)
  next
    case True
    have "split_lines s = butlast (split_lines s) @ [[]]"
      using True split_lines_nonempty [of s] by (metis append_butlast_last_id)
    then have "set (split_lines s) = insert [] (set (butlast (split_lines s)))"
      by (metis Un_insert_right list.simps(15) set_append sup_bot.right_neutral list.set(1))
    with True assms show ?thesis by (auto simp: grep_lines_def)
  qed
  with assms show ?thesis by (simp add: split_lines_sublist)
qed

lemma find_from_spec:
  "(\<not> sublist sub s \<and> find_from i s sub = - 1) \<or>
   (\<exists>k. find_from i s sub = int (i + k) \<and> k \<le> length s \<and> prefix sub (drop k s) \<and>
        (\<forall>j<k. \<not> prefix sub (drop j s)))"
proof (induction s arbitrary: i)
  case Nil
  then show ?case by auto
next
  case (Cons c cs)
  show ?case
  proof (cases "prefix sub (c # cs)")
    case True
    then have "find_from i (c # cs) sub = int (i + 0) \<and> 0 \<le> length (c # cs) \<and> prefix sub (drop 0 (c # cs)) \<and>
        (\<forall>j<0. \<not> prefix sub (drop j (c # cs)))" by simp
    then show ?thesis by blast
  next
    case False
    from Cons.IH [of "Suc i"] show ?thesis
    proof
      assume "\<not> sublist sub cs \<and> find_from (Suc i) cs sub = - 1"
      with False show ?thesis by (simp add: sublist_Cons_right)
    next
      assume "\<exists>k. find_from (Suc i) cs sub = int (Suc i + k) \<and> k \<le> length cs \<and> prefix sub (drop k cs) \<and>
        (\<forall>j<k. \<not> prefix sub (drop j cs))"
      then obtain k where k: "find_from (Suc i) cs sub = int (Suc i + k)" "k \<le> length cs"
        "prefix sub (drop k cs)" "\<forall>j<k. \<not> prefix sub (drop j cs)" by blast
      have "\<forall>j<Suc k. \<not> prefix sub (drop j (c # cs))"
      proof (intro allI impI)
        fix j assume "j < Suc k"
        then show "\<not> prefix sub (drop j (c # cs))"
          using False k(4) by (cases j) auto
      qed
      with False k have "find_from i (c # cs) sub = int (i + Suc k) \<and> Suc k \<le> length (c # cs) \<and>
         prefix sub (drop (Suc k) (c # cs)) \<and> (\<forall>j<Suc k. \<not> prefix sub (drop j (c # cs)))"
        by simp
      then show ?thesis by blast
    qed
  qed
qed


lemma find_from_first:
  assumes "sublist sub s"
  shows "\<exists>k. find_from 0 s sub = int k \<and> k \<le> length s \<and> prefix sub (drop k s) \<and>
        (\<forall>j<k. \<not> prefix sub (drop j s))"
  using find_from_spec [of sub s 0] assms by auto

lemma marker_pattern_plain: "newline \<notin> set marker_pattern \<and> marker_pattern \<noteq> []"
  by (simp add: marker_pattern_def newline_def)

lemma boilerplate_plain: "newline \<notin> set boilerplate \<and> boilerplate \<noteq> []"
  by (simp add: boilerplate_def newline_def)

lemma grep_marker:
  "files w p = Some text \<Longrightarrow>
   grep marker_pattern p w =
     (if sublist marker_pattern text then 0 else 1, emit (Grep marker_pattern p) w)"
  using marker_pattern_plain by (simp add: grep_def grep_lines_sublist)

lemma grep_boilerplate:
  "files w p = Some text \<Longrightarrow>
   grep boilerplate p w =
     (if sublist boilerplate text then 0 else 1, emit (Grep boilerplate p) w)"
  using boilerplate_plain by (simp add: grep_def grep_lines_sublist)

lemma files_emit [simp]: "files (emit ev w) = files w"
  by (simp add: emit_def)

lemma stdin_emit [simp]: "stdin (emit ev w) = stdin w"
  by (simp add: emit_def)

lemma events_emit [simp]: "events (emit ev w) = events w @ [ev]"
  by (simp add: emit_def)

lemma paths_differ: "path_join hm startup_name \<noteq> path_join hm (startup_name @ ''.old'')"
  by (simp add: path_join_def startup_name_def startswith_def)

lemma gpg_startup_noop:
  assumes "home e = Some hm" "files w (path_join hm startup_name) = Some text"
    "sublist marker_pattern text"
  shows "gpg_startup e w =
    (Inr (), w\<lparr>events := events w @ [Path_exists (path_join hm startup_name),
                Grep marker_pattern (path_join hm startup_name)]\<rparr>)"
  using assms
  by (simp add: gpg_startup_def path_exists_def grep_marker emit_def Let_def)

lemma gpg_startup_insert:
  assumes "home e = Some hm" "files w (path_join hm startup_name) = Some text"
    "\<not> sublist marker_pattern text" "sublist boilerplate text"
  shows "\<exists>k. k \<le> length text \<and> prefix boilerplate (drop k text) \<and>
      (\<forall>j<k. \<not> prefix boilerplate (drop j text)) \<and>
      gpg_startup e w =
       (Inl (SetupError []),
        w\<lparr>files := (files w)(path_join hm (startup_name @ ''.old'') \<mapsto> text,
                   path_join hm startup_name \<mapsto> take k text @ gpg_agent_script @ drop k text),
          events := events w @
            [Path_exists (path_join hm startup_name),
             Grep marker_pattern (path_join hm startup_name),
             Grep boilerplate (path_join hm startup_name),
             Rename (path_join hm startup_name) (path_join hm (startup_name @ ''.old'')),
             Read_file (path_join hm (startup_name @ ''.old'')),
             Write_file (path_join hm startup_name) (take k text @ gpg_agent_script @ drop k text),
             Msg Todo (relogin_text (host e))]\<rparr>)"
proof -
  from find_from_first [OF assms(4)] obtain k where
    k: "find_from 0 text boilerplate = int k" "k \<le> length text"
       "prefix boilerplate (drop k text)" "\<forall>j<k. \<not> prefix boilerplate (drop j text)"
    by blast
  have "gpg_startup e w =
       (Inl (SetupError []),
        w\<lparr>files := (files w)(path_join hm (startup_name @ ''.old'') \<mapsto> text,
                   path_join hm startup_name \<mapsto> take k text @ gpg_agent_script @ drop k text),
          events := events w @
            [Path_exists (path_join hm startup_name),
             Grep marker_pattern (path_join hm startup_name),
             Grep boilerplate (path_join hm startup_name),
             Rename (path_join hm startup_name) (path_join hm (startup_name @ ''.old'')),
             Read_file (path_join hm (startup_name @ ''.old'')),
             Write_file (path_join hm startup_name) (take k text @ gpg_agent_script @ drop k text),
             Msg Todo (relogin_text (host e))]\<rparr>)"
    using assms k(1) paths_differ [of hm]
    by (simp add: gpg_startup_def path_exists_def grep_marker grep_boilerplate and_then_def
        rename_def read_file_def write_file_def todo_def emit_def str_find_def slice_to_def
        slice_from_def slice_index_def Let_def)
  with k show ?thesis by blast
qed

lemma gpg_startup_append:
  assumes "home e = Some hm" "files w (path_join hm startup_name) = Some text"
    "\<not> sublist marker_pattern text" "\<not> sublist boilerplate text"
  shows "gpg_startup e w =
       (Inl (SetupError []),
        w\<lparr>files := (files w)(path_join hm (startup_name @ ''.old'') \<mapsto> text,
                   path_join hm startup_name \<mapsto> text @ gpg_agent_script),
          events := events w @
            [Path_exists (path_join hm startup_name),
             Grep marker_pattern (path_join hm startup_name),
             Grep boilerplate (path_join hm startup_name),
             Copy2 (path_join hm startup_name) (path_join hm (startup_name @ ''.old'')),
             Append_file (path_join hm startup_name) gpg_agent_script,
             Msg Todo (relogin_text (host e))]\<rparr>)"
  using assms paths_differ [of hm]
  by (simp add: gpg_startup_def path_exists_def grep_marker grep_boilerplate and_then_def
        copy2_def append_file_def todo_def emit_def Let_def)

lemma example_paths:
  "path_join ''/home/abc'' startup_name = ''/home/abc/.bashrc''"
  "path_join ''/home/abc'' (startup_name @ ''.old'') = ''/home/abc/.bashrc.old''"
  by (simp_all add: path_join_def startup_name_def startswith_def)

lemma sentinel_marker:
  assumes "sublist sentinel text"
  shows "sublist marker_pattern text"
proof -
  from assms obtain ps ss where "text = ps @ sentinel @ ss"
    by (auto simp: sublist_def)
  then have "text = ps @ marker_pattern @ ('': DO NOT EDIT BETWEEN HERE AND END'' @ ss)"
    by (simp add: sentinel_def marker_pattern_def)
  then show ?thesis unfolding sublist_def by blast
qed

section \<open>The script text\<close>

lemma script_last: "last gpg_agent_script = newline"
  by code_simp

lemma script_sentinel: "sublist sentinel gpg_agent_script"
  by code_simp

lemma script_marker_inside: "sublist marker_pattern (pre @ gpg_agent_script @ post)"
proof -
  from sentinel_marker [OF script_sentinel] obtain ps ss where
    "gpg_agent_script = ps @ marker_pattern @ ss" by (auto simp: sublist_def)
  then have "pre @ gpg_agent_script @ post = (pre @ ps) @ marker_pattern @ (ss @ post)"
    by simp
  then show ?thesis unfolding sublist_def by blast
qed

lemma second_run_noop:
  assumes "home e = Some hm"
    and "files w (path_join hm startup_name) = Some body"
    and "\<not> sublist marker_pattern body"
  shows "fst (gpg_startup e (snd (gpg_startup e w))) = Inr () \<and>
         files (snd (gpg_startup e (snd (gpg_startup e w)))) = files (snd (gpg_startup e w))"
proof (cases "sublist boilerplate body")
  case True
  from gpg_startup_insert [OF assms True] obtain k where
    "files (snd (gpg_startup e w)) (path_join hm startup_name) =
       Some (take k body @ gpg_agent_script @ drop k body)" by auto
  from gpg_startup_noop [OF assms(1) this script_marker_inside] show ?thesis by simp
next
  case False
  have "files (snd (gpg_startup e w)) (path_join hm startup_name) =
      Some (body @ gpg_agent_script @ [])"
    by (simp add: gpg_startup_append [OF assms False])
  from gpg_startup_noop [OF assms(1) this script_marker_inside] show ?thesis by simp
qed

section \<open>The states of a patch\<close>




lemma last_append_states:
  "last (append_states p d f) = f(p \<mapsto> (case f p of None \<Rightarrow> [] | Some c \<Rightarrow> c) @ d)"
  by (simp add: append_states_def last_map del: upt_Suc)







lemma gpg_startup_files_insert:
  assumes "home e = Some hm" "files w (path_join hm startup_name) = Some text"
    "\<not> sublist marker_pattern text" "sublist boilerplate text"
  shows "files (snd (gpg_startup e w)) =
     (files w)(path_join hm (startup_name @ ''.old'') \<mapsto> text,
               path_join hm startup_name \<mapsto>
                 slice_to text (str_find text boilerplate) @ gpg_agent_script
                   @ slice_from text (str_find text boilerplate))"
  using assms paths_differ [of hm]
  by (simp add: gpg_startup_def path_exists_def grep_marker grep_boilerplate and_then_def
        rename_def read_file_def write_file_def todo_def Let_def)


section \<open>The prompt loop\<close>

lemma request_loop_done:
  "r \<in> set answers \<Longrightarrow> request_loop (Some r) w = (Inr r, w)"
  using request_loop.simps [of "Some r" w] by auto

lemma request_loop_eof:
  "m \<notin> Some ` set answers \<Longrightarrow> stdin w = [] \<Longrightarrow>
   request_loop m w = (Inl EOFError, w\<lparr>events := events w @ [Raw_input full_prompt]\<rparr>)"
  using request_loop.simps [of m w]
  by (simp add: prompt_or_default_def raw_input_def emit_def full_prompt_def)

lemma request_loop_step:
  "m \<notin> Some ` set answers \<Longrightarrow> stdin w = l # ls \<Longrightarrow>
   request_loop m w =
     request_loop (Some (answer_of l))
       (w\<lparr>stdin := ls, events := events w @ [Raw_input full_prompt]\<rparr>)"
  using request_loop.simps [of m w]
  by (simp add: prompt_or_default_def raw_input_def emit_def full_prompt_def answer_of_def Let_def)

lemma request_loop_run:
  assumes "m \<notin> Some ` set answers"
    and "stdin w = bad @ a # rest"
    and "\<forall>r \<in> set bad. answer_of r \<notin> set answers"
    and "answer_of a \<in> set answers"
  shows "request_loop m w =
     (Inr (answer_of a),
      w\<lparr>stdin := rest,
        events := events w @ replicate (Suc (length bad)) (Raw_input full_prompt)\<rparr>)"
  using assms
proof (induction bad arbitrary: m w)
  case Nil
  then show ?case by (simp add: request_loop_step request_loop_done)
next
  case (Cons b bad)
  have "request_loop m w =
      request_loop (Some (answer_of b))
        (w\<lparr>stdin := bad @ a # rest, events := events w @ [Raw_input full_prompt]\<rparr>)"
    using Cons.prems by (simp add: request_loop_step)
  also have "\<dots> = (Inr (answer_of a),
      w\<lparr>stdin := rest,
        events := events w @ replicate (Suc (length (b # bad))) (Raw_input full_prompt)\<rparr>)"
    using Cons.prems by (subst Cons.IH) (auto simp: replicate_append_same)
  finally show ?case .
qed

section \<open>The events of a run\<close>

lemma gpg_startup_no_home:
  "home e = None \<Longrightarrow> gpg_startup e w = (Inl (KeyError ''HOME''), w)"
  by (simp add: gpg_startup_def)

lemma gpg_startup_missing:
  assumes "home e = Some hm" "files w (path_join hm startup_name) = None"
  shows "gpg_startup e w =
    (Inl (SetupError []),
     w\<lparr>events := events w @
        [Path_exists (path_join hm startup_name),
         Msg Warning (''Startup script ~/'' @ startup_name @ '' does not exist.''),
         Msg Todo ''Please contact the helpdesk.'']\<rparr>)"
  using assms
  by (simp add: gpg_startup_def path_exists_def warning_def todo_def emit_def Let_def)

lemma gpg_startup_quiet:
  "\<exists>evs. events (snd (gpg_startup e w)) = events w @ evs \<and> Msg Info support_text \<notin> set evs"
proof (cases "home e")
  case None
  then show ?thesis by (simp add: gpg_startup_no_home)
next
  case (Some hm)
  note hm = this
  show ?thesis
  proof (cases "files w (path_join hm startup_name)")
    case None
    then show ?thesis by (simp add: gpg_startup_missing [OF hm])
  next
    case (Some body)
    note present = this
    show ?thesis
    proof (cases "sublist marker_pattern body")
      case True
      then show ?thesis by (simp add: gpg_startup_noop [OF hm present])
    next
      case False
      note unpatched = this
      show ?thesis
      proof (cases "sublist boilerplate body")
        case True
        from gpg_startup_insert [OF hm present unpatched True]
        show ?thesis by auto
      next
        case False
        then show ?thesis
          by (simp add: gpg_startup_append [OF hm present unpatched])
      qed
    qed
  qed
qed

lemma request_loop_quiet:
  "\<exists>evs. events (snd (request_loop m w)) = events w @ evs \<and> Msg Info support_text \<notin> set evs"
proof (induction "stdin w" arbitrary: m w)
  case Nil
  show ?case
  proof (cases "m \<in> Some ` set answers")
    case True
    then show ?thesis by (auto simp: request_loop_done)
  next
    case False
    with Nil show ?thesis by (simp add: request_loop_eof)
  qed
next
  case (Cons l ls)
  show ?case
  proof (cases "m \<in> Some ` set answers")
    case True
    then show ?thesis by (auto simp: request_loop_done)
  next
    case False
    let ?w = "w\<lparr>stdin := ls, events := events w @ [Raw_input full_prompt]\<rparr>"
    have step: "request_loop m w = request_loop (Some (answer_of l)) ?w"
      using False Cons.hyps(2) by (simp add: request_loop_step)
    have "ls = stdin ?w" by simp
    from Cons.hyps(1) [OF this, of "Some (answer_of l)"] obtain evs where
      "events (snd (request_loop (Some (answer_of l)) ?w)) = events ?w @ evs"
      "Msg Info support_text \<notin> set evs" by blast
    then have "events (snd (request_loop m w)) = events w @ (Raw_input full_prompt # evs) \<and>
        Msg Info support_text \<notin> set (Raw_input full_prompt # evs)"
      by (simp add: step)
    then show ?thesis by blast
  qed
qed

lemma events_foldl_info:
  "events (foldl (\<lambda>w' arg. info arg w') w args) = events w @ map (Msg Info) args"
  by (induction args arbitrary: w) (simp_all add: info_def)

lemma setup_mosrs_account_quiet:
  assumes "\<forall>args. agent_result e = Some (GPGError args) \<longrightarrow> support_text \<notin> set args"
  shows "\<exists>evs. events (snd (setup_mosrs_account e w)) = events w @ evs \<and>
           Msg Info support_text \<notin> set evs"
proof (cases "agent_result e")
  case None
  let ?w1 = "emit Start_gpg_agent w"
  obtain evs where evs: "events (snd (request_loop None ?w1)) = events ?w1 @ evs"
    "Msg Info support_text \<notin> set evs"
    using request_loop_quiet [of None ?w1] by blast
  obtain r w2 where rl: "request_loop None ?w1 = (r, w2)" by (cases "request_loop None ?w1")
  with evs have w2: "events w2 = events w @ Start_gpg_agent # evs" by simp
  have "\<exists>evs'. events (snd (setup_mosrs_account e w)) = events w2 @ evs' \<and>
           Msg Info support_text \<notin> set evs'"
    using None rl
    by (cases r)
       (auto simp: setup_mosrs_account_def gpg_start_gpg_agent_def call_def and_then_def
          auth_check_or_update_def todo_def warning_def
          split: option.splits exn.splits)
  then obtain evs' where "events (snd (setup_mosrs_account e w)) = events w2 @ evs'"
      "Msg Info support_text \<notin> set evs'" by blast
  with w2 evs(2) have "events (snd (setup_mosrs_account e w)) = events w @ (Start_gpg_agent # evs @ evs') \<and>
      Msg Info support_text \<notin> set (Start_gpg_agent # evs @ evs')" by simp
  then show ?thesis by blast
next
  case (Some ex)
  with assms show ?thesis
    by (cases ex)
       (auto simp: setup_mosrs_account_def gpg_start_gpg_agent_def call_def
          events_foldl_info warning_def)
qed

lemma check_rose_events: "events (snd (check_rose e w)) = events w @ [Check_rose]"
  by (simp add: check_rose_def auth_check_rose_def call_def split: option.splits)

lemma main_body_quiet:
  assumes "\<forall>args. agent_result e = Some (GPGError args) \<longrightarrow> support_text \<notin> set args"
  shows "\<exists>evs. events (snd (main_body e w)) = events w @ evs \<and>
           Msg Info support_text \<notin> set evs"
proof -
  obtain r1 w1 where cr: "check_rose e w = (r1, w1)" by (cases "check_rose e w")
  with check_rose_events [of e w] have w1: "events w1 = events w @ [Check_rose]" by simp
  show ?thesis
  proof (cases r1)
    case (Inl ex)
    with cr w1 show ?thesis by (simp add: main_body_def and_then_def)
  next
    case (Inr u)
    obtain r2 w2 where sm: "setup_mosrs_account e w1 = (r2, w2)"
      by (cases "setup_mosrs_account e w1")
    from setup_mosrs_account_quiet [OF assms, of w1] sm obtain evs where
      evs: "events w2 = events w1 @ evs" "Msg Info support_text \<notin> set evs" by auto
    show ?thesis
    proof (cases r2)
      case (Inl ex)
      with cr Inr sm w1 evs have "events (snd (main_body e w)) = events w @ (Check_rose # evs)"
        by (cases ex) (simp_all add: main_body_def and_then_def)
      with evs(2) show ?thesis by auto
    next
      case (Inr u')
      obtain r3 w3 where gs: "gpg_startup e w2 = (r3, w3)" by (cases "gpg_startup e w2")
      from gpg_startup_quiet [of e w2] gs obtain evs' where
        evs': "events w3 = events w2 @ evs'" "Msg Info support_text \<notin> set evs'" by auto
      from cr \<open>r1 = Inr u\<close> sm Inr gs
      have "events (snd (main_body e w)) = events w3"
        by (cases r3) (simp_all add: main_body_def and_then_def)
      with w1 evs evs' have "events (snd (main_body e w)) = events w @ (Check_rose # evs @ evs') \<and>
         Msg Info support_text \<notin> set (Check_rose # evs @ evs')" by simp
      then show ?thesis by blast
    qed
  qed
qed

lemma texts_differ: "success_text \<noteq> support_text"
  by code_simp

lemma main_support_once:
  assumes "\<not> accessdev e"
    and "\<forall>args. agent_result e = Some (GPGError args) \<longrightarrow> support_text \<notin> set args"
  shows "\<exists>evs. events (snd (main e w)) = events w @ evs @ [Msg Info support_text] \<and>
           Msg Info support_text \<notin> set evs"
proof -
  let ?w1 = "emit (Print welcome_text) (emit (Print []) w)"
  obtain r w2 where mb: "main_body e ?w1 = (r, w2)" by (cases "main_body e ?w1")
  from main_body_quiet [OF assms(2), of ?w1] mb obtain evs where
    evs: "events w2 = events ?w1 @ evs" "Msg Info support_text \<notin> set evs" by auto
  have "\<exists>evs'. events (snd (main e w)) = events w2 @ evs' @ [Msg Info support_text] \<and>
      Msg Info support_text \<notin> set evs'"
    using assms(1) mb texts_differ
    by (auto simp: main_def Let_def info_def todo_def split: sum.splits exn.splits flow.splits)
  then obtain evs' where "events (snd (main e w)) = events w2 @ evs' @ [Msg Info support_text]"
    "Msg Info support_text \<notin> set evs'" by blast
  with evs have "events (snd (main e w)) =
      events w @ (Print [] # Print welcome_text # evs @ evs') @ [Msg Info support_text] \<and>
      Msg Info support_text \<notin> set (Print [] # Print welcome_text # evs @ evs')" by simp
  then show ?thesis by blast
qed

lemma answers_yes: "a = ''yes'' \<or> a = ''y'' \<Longrightarrow> a \<in> set answers \<and> startswith a ''y''"
  by (auto simp: answers_def startswith_def)

lemma answers_no: "a = ''no'' \<or> a = ''n'' \<Longrightarrow> a \<in> set answers \<and> \<not> startswith a ''y''"
  by (auto simp: answers_def startswith_def)

lemma setup_no:
  assumes "agent_result e = None"
    and "stdin w = bad @ a # rest"
    and "\<forall>r \<in> set bad. answer_of r \<notin> set answers"
    and "answer_of a = ''no'' \<or> answer_of a = ''n''"
  shows "setup_mosrs_account e w =
     (Inl (SetupError []),
      w\<lparr>stdin := rest,
        events := events w @ [Start_gpg_agent]
          @ replicate (Suc (length bad)) (Raw_input full_prompt)
          @ [Msg Todo request_account_text]\<rparr>)"
proof -
  have "request_loop None (emit Start_gpg_agent w) =
      (Inr (answer_of a),
       (emit Start_gpg_agent w)\<lparr>stdin := rest,
         events := events (emit Start_gpg_agent w)
           @ replicate (Suc (length bad)) (Raw_input full_prompt)\<rparr>)"
    using assms answers_no [OF assms(4)] by (intro request_loop_run) auto
  then show ?thesis
    using assms(1) answers_no [OF assms(4)]
    by (simp add: setup_mosrs_account_def gpg_start_gpg_agent_def call_def and_then_def
        todo_def emit_def)
qed

lemma setup_yes:
  assumes "agent_result e = None"
    and "stdin w = bad @ a # rest"
    and "\<forall>r \<in> set bad. answer_of r \<notin> set answers"
    and "answer_of a = ''yes'' \<or> answer_of a = ''y''"
  shows "setup_mosrs_account e w =
     (case auth_result e of
        None \<Rightarrow> Inr ()
      | Some ex \<Rightarrow> Inl (case ex of AuthError _ \<Rightarrow> SetupError [] | _ \<Rightarrow> ex),
      w\<lparr>stdin := rest,
        events := events w @ [Start_gpg_agent]
          @ replicate (Suc (length bad)) (Raw_input full_prompt)
          @ [Check_or_update]
          @ (case auth_result e of
               Some (AuthError _) \<Rightarrow>
                 [Msg Warning ''Authentication check and update failed.'',
                  Msg Todo credentials_text]
             | _ \<Rightarrow> [])\<rparr>)"
proof -
  have "request_loop None (emit Start_gpg_agent w) =
      (Inr (answer_of a),
       (emit Start_gpg_agent w)\<lparr>stdin := rest,
         events := events (emit Start_gpg_agent w)
           @ replicate (Suc (length bad)) (Raw_input full_prompt)\<rparr>)"
    using assms answers_yes [OF assms(4)] by (intro request_loop_run) auto
  then show ?thesis
    using assms(1) answers_yes [OF assms(4)]
    by (simp add: setup_mosrs_account_def gpg_start_gpg_agent_def call_def and_then_def
        auth_check_or_update_def todo_def warning_def emit_def
        split: option.splits exn.splits)
qed

lemma main_no_account:
  assumes "\<not> accessdev e" "rose_result e = None" "agent_result e = None"
    and "stdin w = bad @ a # rest"
    and "\<forall>r \<in> set bad. answer_of r \<notin> set answers"
    and "answer_of a = ''no'' \<or> answer_of a = ''n''"
  shows "main e w =
     (Inr (),
      w\<lparr>stdin := rest,
        events := events w @ [Print [], Print welcome_text, Check_rose, Start_gpg_agent]
          @ replicate (Suc (length bad)) (Raw_input full_prompt)
          @ [Msg Todo request_account_text, Msg Todo rerun_text, Msg Info support_text]\<rparr>)"
proof -
  let ?w1 = "emit Check_rose (emit (Print welcome_text) (emit (Print []) w))"
  have "stdin ?w1 = bad @ a # rest" using assms(4) by simp
  from setup_no [OF assms(3) this assms(5,6)] show ?thesis
    using assms(1,2)
    by (simp add: main_def main_body_def check_rose_def auth_check_rose_def call_def
        and_then_def Let_def todo_def info_def emit_def)
qed

lemma main_auth_error:
  assumes "\<not> accessdev e" "rose_result e = None" "agent_result e = None"
    and "stdin w = bad @ a # rest"
    and "\<forall>r \<in> set bad. answer_of r \<notin> set answers"
    and "answer_of a = ''yes'' \<or> answer_of a = ''y''"
    and "auth_result e = Some (AuthError args)"
  shows "main e w =
     (Inr (),
      w\<lparr>stdin := rest,
        events := events w @ [Print [], Print welcome_text, Check_rose, Start_gpg_agent]
          @ replicate (Suc (length bad)) (Raw_input full_prompt)
          @ [Check_or_update,
             Msg Warning ''Authentication check and update failed.'',
             Msg Todo credentials_text, Msg Todo rerun_text, Msg Info support_text]\<rparr>)"
proof -
  let ?w1 = "emit Check_rose (emit (Print welcome_text) (emit (Print []) w))"
  have "stdin ?w1 = bad @ a # rest" using assms(4) by simp
  from setup_yes [OF assms(3) this assms(5,6)] show ?thesis
    using assms(1,2,7)
    by (simp add: main_def main_body_def check_rose_def auth_check_rose_def call_def
        and_then_def Let_def todo_def info_def emit_def)
qed


lemma answer_of_examples:
  "answer_of ''Y'' = ''y''" "answer_of ''yes'' = ''yes''" "answer_of ''n'' = ''n''"
  "answer_of ''No'' = ''no''" "answer_of [] = ''yes''" "answer_of ''maybe'' = ''maybe''"
  "answer_of '' YES '' = ''yes''"
  by code_simp+

lemma lower_char_space: "is_space c \<Longrightarrow> lower_char c = c"
  by (auto simp: is_space_def lower_char_def Let_def)

lemma answers_no_space: "r \<in> set answers \<Longrightarrow> r \<noteq> [] \<and> \<not> is_space (hd r) \<and> \<not> is_space (last r)"
  by (auto simp: answers_def is_space_def)

lemma strip_id: "r \<noteq> [] \<Longrightarrow> \<not> is_space (hd r) \<Longrightarrow> \<not> is_space (last r) \<Longrightarrow> str_strip r = r"
proof -
  assume r: "r \<noteq> []" "\<not> is_space (hd r)" "\<not> is_space (last r)"
  then have 1: "dropWhile is_space r = r" by (cases r) auto
  from r have "rev r \<noteq> []" "\<not> is_space (hd (rev r))" by (simp_all add: hd_rev)
  then have "dropWhile is_space (rev r) = rev r" by (cases "rev r") auto
  with 1 show ?thesis by (simp add: str_strip_def)
qed

lemma answer_of_lower:
  assumes "str_lower r \<in> set answers"
  shows "answer_of r = str_lower r"
proof -
  from answers_no_space [OF assms] have ne: "r \<noteq> []"
    and h: "\<not> is_space (hd (str_lower r))" and l: "\<not> is_space (last (str_lower r))"
    by (auto simp: str_lower_def)
  have "\<not> is_space (hd r)"
    using h ne lower_char_space [of "hd r"] by (auto simp: str_lower_def hd_map)
  moreover have "\<not> is_space (last r)"
    using l ne lower_char_space [of "last r"] by (auto simp: str_lower_def last_map)
  ultimately have "str_strip r = r" using ne by (simp add: strip_id)
  with ne show ?thesis by (simp add: answer_of_def)
qed


lemma keys_eval:
  "key = ''0384c76bfdca059bc9428ca8eb64a012''"
  "nemo_key = ''07a8d683077d2a8d2003588884c1a0a3''"
  by code_simp+

lemma spec_key_eval:
  "md5_hexdigest (spec_canonical access_collab) = ''b62851b56911b0edb58d2d68182dacdf''"
  by code_simp

lemma count_list_replicate:
  "count_list (replicate n x) y = (if x = y then n else 0)"
  by (induction n) auto

section \<open>The digest\<close>

lemma length_hexdigest: "length (hexdigest bs) = 2 * length bs"
  by (induction bs) (simp_all add: hexdigest_def)

lemma length_le_bytes: "length (le_bytes n v) = n"
  by (simp add: le_bytes_def)

lemma length_md5_digest: "length (md5_digest s) = 16"
  by (simp add: md5_digest_def Let_def length_le_bytes split: prod.splits)

lemma md5_length: "length (md5_hexdigest s) = 32"
  by (simp add: md5_hexdigest_def length_hexdigest length_md5_digest)

section \<open>Claims about the startup script\<close>



text \<open>
  Claim C4. A startup file that already holds the sentinel line of the managed block
  makes \<open>gpg_startup\<close> return normally with every file, the startup file included,
  byte for byte as before.
\<close>

theorem sentinel_noop:
  assumes "home e = Some hm"
    and "files w (path_join hm startup_name) = Some body"
    and "sublist sentinel body"
  shows "fst (gpg_startup e w) = Inr () \<and>
         files (snd (gpg_startup e w)) = files w \<and>
         files (snd (gpg_startup e w)) (path_join hm startup_name) = Some body"
  using assms(2) by (simp add: gpg_startup_noop [OF assms(1,2) sentinel_marker [OF assms(3)]])

theorem sentinel_noop_witness:
  "home example_env = Some ''/home/abc'' \<and>
   files (example_world gpg_agent_script []) ''/home/abc/.bashrc'' = Some gpg_agent_script \<and>
   sublist sentinel gpg_agent_script \<and>
   fst (gpg_startup example_env (example_world gpg_agent_script [])) = Inr () \<and>
   files (snd (gpg_startup example_env (example_world gpg_agent_script [])))
     ''/home/abc/.bashrc'' = Some gpg_agent_script"
proof -
  have h1: "home example_env = Some ''/home/abc''"
    by (simp add: example_env_def)
  have h2: "files (example_world gpg_agent_script [])
              (path_join ''/home/abc'' startup_name) = Some gpg_agent_script"
    by (simp add: example_world_def example_paths)
  from sentinel_noop [OF h1 h2 script_sentinel] show ?thesis
    using h1 h2 script_sentinel by (simp add: example_paths)
qed

text \<open>
  Claim C5. For a startup file that is not yet referenced: when the anchor
  \<open>if in_interactive_shell; then\<close> occurs, the new content is the old one with the
  script put in immediately before the first occurrence of the anchor (what the old
  file has before that occurrence, on the same line too, stays before the script), and
  as the script ends with a newline the anchor then starts a line of its own after the
  script; when the anchor does not occur, the new content is the old one followed by
  the script.
\<close>

theorem patch_position:
  assumes "home e = Some hm"
    and "files w (path_join hm startup_name) = Some body"
    and "\<not> sublist marker_pattern body"
  shows "if sublist boilerplate body
         then \<exists>pre post. body = pre @ post \<and> prefix boilerplate post \<and>
                (\<forall>j<length pre. \<not> prefix boilerplate (drop j body)) \<and>
                files (snd (gpg_startup e w)) (path_join hm startup_name) =
                  Some (pre @ gpg_agent_script @ post) \<and>
                last gpg_agent_script = newline
         else files (snd (gpg_startup e w)) (path_join hm startup_name) =
                Some (body @ gpg_agent_script)"
proof (cases "sublist boilerplate body")
  case True
  from gpg_startup_insert [OF assms True] obtain k where
    k: "k \<le> length body" "prefix boilerplate (drop k body)"
       "\<forall>j<k. \<not> prefix boilerplate (drop j body)"
       "files (snd (gpg_startup e w)) (path_join hm startup_name) =
          Some (take k body @ gpg_agent_script @ drop k body)"
    by auto
  have "body = take k body @ drop k body" by simp
  moreover have "\<forall>j<length (take k body). \<not> prefix boilerplate (drop j body)"
    using k(1,3) by simp
  ultimately have "\<exists>pre post. body = pre @ post \<and> prefix boilerplate post \<and>
                (\<forall>j<length pre. \<not> prefix boilerplate (drop j body)) \<and>
                files (snd (gpg_startup e w)) (path_join hm startup_name) =
                  Some (pre @ gpg_agent_script @ post)"
    using k(2,4) by blast
  with True show ?thesis by (simp add: script_last)
next
  case False
  with gpg_startup_append [OF assms False] show ?thesis by simp
qed

theorem patch_position_witness:
  "home example_env = Some ''/home/abc'' \<and>
   files (example_world ''umask 022\<newline>'' []) ''/home/abc/.bashrc'' = Some ''umask 022\<newline>'' \<and>
   files (snd (gpg_startup example_env (example_world ''umask 022\<newline>'' [])))
     ''/home/abc/.bashrc'' = Some (''umask 022\<newline>'' @ gpg_agent_script) \<and>
   files (example_world ''umask 022\<newline>if in_interactive_shell; then\<newline>fi\<newline>'' [])
     ''/home/abc/.bashrc'' = Some ''umask 022\<newline>if in_interactive_shell; then\<newline>fi\<newline>'' \<and>
   (\<exists>pre post.
      ''umask 022\<newline>if in_interactive_shell; then\<newline>fi\<newline>'' = pre @ post \<and>
      prefix boilerplate post \<and>
      files (snd (gpg_startup example_env
        (example_world ''umask 022\<newline>if in_interactive_shell; then\<newline>fi\<newline>'' [])))
        ''/home/abc/.bashrc'' = Some (pre @ gpg_agent_script @ post)) \<and>
   files (snd (gpg_startup example_env
     (example_world ''umask 022\<newline>if in_interactive_shell; then\<newline>fi\<newline>'' [])))
     ''/home/abc/.bashrc'' =
       Some (''umask 022\<newline>'' @ gpg_agent_script @ ''if in_interactive_shell; then\<newline>fi\<newline>'')"
proof -
  let ?a = "''umask 022\<newline>''"
  let ?b = "''umask 022\<newline>if in_interactive_shell; then\<newline>fi\<newline>''"
  have h1: "home example_env = Some ''/home/abc''"
    by (simp add: example_env_def)
  have a2: "files (example_world ?a []) (path_join ''/home/abc'' startup_name) = Some ?a"
    by (simp add: example_world_def example_paths)
  have a3: "\<not> sublist marker_pattern ?a"
    by (simp add: marker_pattern_def sublist_code(3))
  have a4: "\<not> sublist boilerplate ?a"
    by (simp add: boilerplate_def sublist_code(3))
  have b2: "files (example_world ?b []) (path_join ''/home/abc'' startup_name) = Some ?b"
    by (simp add: example_world_def example_paths)
  have b3: "\<not> sublist marker_pattern ?b"
    by (simp add: marker_pattern_def sublist_code(3))
  have b4: "sublist boilerplate ?b"
    by (simp add: boilerplate_def sublist_code(3))
  have b5: "str_find ?b boilerplate = 10"
    by (simp add: str_find_def boilerplate_def)
  have first: "files (snd (gpg_startup example_env (example_world ?a [])))
      ''/home/abc/.bashrc'' = Some (?a @ gpg_agent_script)"
    using patch_position [OF h1 a2 a3] a4 by (simp add: example_paths)
  have second: "\<exists>pre post. ?b = pre @ post \<and> prefix boilerplate post \<and>
      files (snd (gpg_startup example_env (example_world ?b []))) ''/home/abc/.bashrc''
        = Some (pre @ gpg_agent_script @ post)"
    using patch_position [OF h1 b2 b3] b4 by (simp add: example_paths) blast
  have third: "files (snd (gpg_startup example_env (example_world ?b [])))
      ''/home/abc/.bashrc'' =
        Some (''umask 022\<newline>'' @ gpg_agent_script @ ''if in_interactive_shell; then\<newline>fi\<newline>'')"
    using paths_differ [of "''/home/abc''"]
    by (simp add: gpg_startup_files_insert [OF h1 b2 b3 b4] b5 slice_to_def slice_from_def
        slice_index_def example_paths)
  from h1 a2 b2 first second third show ?thesis
    by (simp add: example_paths)
qed

text \<open>
  Claim C10. The check for an earlier patch is a search for the text
  \<open>mosrs-setup gpg_agent_script\<close>: whenever the startup file contains it anywhere,
  \<open>gpg_startup\<close> returns normally, every file is as before, no \<open>.bashrc.old\<close> appears,
  and the only accesses are the existence test and the one \<open>grep\<close>.
\<close>

theorem marker_substring_noop:
  assumes "home e = Some hm"
    and "files w (path_join hm startup_name) = Some text"
    and "sublist marker_pattern text"
  shows "fst (gpg_startup e w) = Inr () \<and>
         files (snd (gpg_startup e w)) = files w \<and>
         files (snd (gpg_startup e w)) (path_join hm (startup_name @ ''.old'')) =
           files w (path_join hm (startup_name @ ''.old'')) \<and>
         events (snd (gpg_startup e w)) =
           events w @ [Path_exists (path_join hm startup_name),
                       Grep marker_pattern (path_join hm startup_name)]"
  by (simp add: gpg_startup_noop [OF assms])

theorem marker_substring_noop_witness:
  "home example_env = Some ''/home/abc'' \<and>
   files (example_world ''echo mosrs-setup gpg_agent_script'' []) ''/home/abc/.bashrc''
     = Some ''echo mosrs-setup gpg_agent_script'' \<and>
   sublist marker_pattern ''echo mosrs-setup gpg_agent_script'' \<and>
   fst (gpg_startup example_env (example_world ''echo mosrs-setup gpg_agent_script'' [])) = Inr () \<and>
   files (snd (gpg_startup example_env (example_world ''echo mosrs-setup gpg_agent_script'' [])))
     = [''/home/abc/.bashrc'' \<mapsto> ''echo mosrs-setup gpg_agent_script''] \<and>
   files (snd (gpg_startup example_env (example_world ''echo mosrs-setup gpg_agent_script'' [])))
     ''/home/abc/.bashrc.old'' = None"
proof -
  have h1: "home example_env = Some ''/home/abc''"
    by (simp add: example_env_def)
  have h2: "files (example_world ''echo mosrs-setup gpg_agent_script'' [])
              (path_join ''/home/abc'' startup_name) = Some ''echo mosrs-setup gpg_agent_script''"
    by (simp add: example_world_def example_paths)
  have h3: "sublist marker_pattern ''echo mosrs-setup gpg_agent_script''"
    by (simp add: marker_pattern_def sublist_code(3))
  show ?thesis
    using marker_substring_noop [OF h1 h2 h3] h1 h2 h3
    by (simp add: example_paths example_world_def)
qed

section \<open>Claims about the setup flow\<close>

text \<open>
  Claim C2, as the code has it. On every path of \<open>main\<close> that gets past the host
  check (success, each \<open>SetupError\<close>, the return after \<open>GPGError\<close>, an exception that
  passes through), the support line is the last event of the run and occurs once,
  provided the arguments of a \<open>GPGError\<close>, which \<open>setup_mosrs_account\<close> prints with
  \<open>info\<close>, do not repeat it.
\<close>

theorem support_message_once:
  assumes "\<not> accessdev e"
    and "\<forall>args. agent_result e = Some (GPGError args) \<longrightarrow> support_text \<notin> set args"
  shows "\<exists>evs. events (snd (main e w)) = events w @ evs \<and>
           count_list evs (Msg Info support_text) = 1 \<and>
           last evs = Msg Info support_text"
proof -
  from main_support_once [OF assms] obtain evs where
    evs: "events (snd (main e w)) = events w @ evs @ [Msg Info support_text]"
      "Msg Info support_text \<notin> set evs" by blast
  from evs(2) have "count_list evs (Msg Info support_text) = 0"
    by (simp add: count_list_0_iff)
  then have "count_list (evs @ [Msg Info support_text]) (Msg Info support_text) = 1 \<and>
      last (evs @ [Msg Info support_text]) = Msg Info support_text" by simp
  with evs(1) show ?thesis by blast
qed

theorem support_message_once_witness:
  "\<not> accessdev example_env \<and> agent_result example_env = None \<and>
   count_list (events (snd (main example_env (example_world [] [])))) (Msg Info support_text) = 1 \<and>
   last (events (snd (main example_env (example_world [] [])))) = Msg Info support_text"
proof -
  have h1: "\<not> accessdev example_env" and h0: "agent_result example_env = None"
    by (simp_all add: example_env_def)
  have h2: "\<forall>args. agent_result example_env = Some (GPGError args) \<longrightarrow> support_text \<notin> set args"
    by (simp add: h0)
  from support_message_once [OF h1 h2, of "example_world [] []"] show ?thesis
    using h1 h0 by (auto simp: example_world_def)
qed

text \<open>
  The claim as stated fails on the host check: on accessdev \<open>main\<close> returns before the
  \<open>try\<close> statement, and the run consists of the empty line and the warning.
\<close>

theorem support_message_accessdev_counterexample:
  "events (snd (main (example_env\<lparr>accessdev := True\<rparr>) (example_world [] []))) =
     [Print [], Msg Warning accessdev_text] \<and>
   count_list (events (snd (main (example_env\<lparr>accessdev := True\<rparr>) (example_world [] []))))
     (Msg Info support_text) = 0"
  by (simp add: main_def example_env_def example_world_def warning_def emit_def Let_def)

text \<open>
  Claim C3, as the code has it. After the answer \<open>no\<close> (or \<open>n\<close>) the run consists of
  the prompts, the request for an account, the general line that asks to run the setup
  again, and the support line: \<open>auth.check_or_update\<close> is not called, nothing but the
  answers is read, and no file is touched. The handler of \<open>main\<close> re-raises the
  \<open>SetupError\<close> of this path to the handler that prints the general line.
\<close>

theorem no_account_flow:
  assumes "\<not> accessdev e" and "rose_result e = None" and "agent_result e = None"
    and "stdin w = bad @ a # rest"
    and "\<forall>r \<in> set bad. answer_of r \<notin> set answers"
    and "answer_of a = ''no'' \<or> answer_of a = ''n''"
  shows "main e w =
     (Inr (),
      w\<lparr>stdin := rest,
        events := events w @ [Print [], Print welcome_text, Check_rose, Start_gpg_agent]
          @ replicate (Suc (length bad)) (Raw_input full_prompt)
          @ [Msg Todo request_account_text, Msg Todo rerun_text, Msg Info support_text]\<rparr>)"
  by (rule main_no_account [OF assms])

theorem no_account_flow_witness:
  "\<not> accessdev example_env \<and> rose_result example_env = None \<and>
   agent_result example_env = None \<and>
   answer_of ''maybe'' \<notin> set answers \<and> answer_of ''N'' = ''n'' \<and>
   main example_env (example_world [] [''maybe'', ''N'', ''secret'']) =
     (Inr (),
      \<lparr>files = [''/home/abc/.bashrc'' \<mapsto> []], stdin = [''secret''],
       events = [Print [], Print welcome_text, Check_rose, Start_gpg_agent,
                 Raw_input full_prompt, Raw_input full_prompt,
                 Msg Todo request_account_text, Msg Todo rerun_text,
                 Msg Info support_text]\<rparr>)"
proof -
  have h1: "\<not> accessdev example_env" and h2: "rose_result example_env = None"
    and h3: "agent_result example_env = None"
    by (simp_all add: example_env_def)
  have h4: "stdin (example_world [] [''maybe'', ''N'', ''secret'']) = [''maybe''] @ ''N'' # [''secret'']"
    by (simp add: example_world_def)
  have a1: "answer_of ''maybe'' \<notin> set answers" and a2: "answer_of ''N'' = ''n''"
    by code_simp+
  have h5: "\<forall>r \<in> set [''maybe'']. answer_of r \<notin> set answers" using a1 by simp
  have h6: "answer_of ''N'' = ''no'' \<or> answer_of ''N'' = ''n''" using a2 by simp
  from no_account_flow [OF h1 h2 h3 h4 h5 h6] show ?thesis
    using h1 h2 h3 a1 a2 by (simp add: example_world_def)
qed

text \<open>
  The claim as stated fails in its last part: the run that answers \<open>no\<close> does print
  the general line that asks to run the setup again.
\<close>

theorem no_account_rerun_counterexample:
  "Msg Todo rerun_text \<in> set (events (snd (main example_env (example_world [] [''no'']))))"
proof -
  have h1: "\<not> accessdev example_env" and h2: "rose_result example_env = None"
    and h3: "agent_result example_env = None"
    by (simp_all add: example_env_def)
  have h4: "stdin (example_world [] [''no'']) = [] @ ''no'' # []"
    by (simp add: example_world_def)
  have a: "answer_of ''no'' = ''no''" by code_simp
  have h5: "\<forall>r \<in> set []. answer_of r \<notin> set answers" by simp
  have h6: "answer_of ''no'' = ''no'' \<or> answer_of ''no'' = ''n''" using a by simp
  from main_no_account [OF h1 h2 h3 h4 h5 h6] show ?thesis by simp
qed

text \<open>
  Claim C6. When \<open>auth.check_or_update\<close> raises \<open>AuthError\<close>, the run prints the warning
  and the advice to check the credentials, then the general line and the support line,
  and returns. \<open>auth.check_or_update\<close> is called once, no event is a file access and
  the files are as before.
\<close>

theorem auth_error_flow:
  assumes "\<not> accessdev e" and "rose_result e = None" and "agent_result e = None"
    and "stdin w = bad @ a # rest"
    and "\<forall>r \<in> set bad. answer_of r \<notin> set answers"
    and "answer_of a = ''yes'' \<or> answer_of a = ''y''"
    and "auth_result e = Some (AuthError args)"
  shows "main e w =
     (Inr (),
      w\<lparr>stdin := rest,
        events := events w @ [Print [], Print welcome_text, Check_rose, Start_gpg_agent]
          @ replicate (Suc (length bad)) (Raw_input full_prompt)
          @ [Check_or_update,
             Msg Warning ''Authentication check and update failed.'',
             Msg Todo credentials_text, Msg Todo rerun_text, Msg Info support_text]\<rparr>) \<and>
     files (snd (main e w)) = files w \<and>
     filter is_file_event (drop (length (events w)) (events (snd (main e w)))) = [] \<and>
     count_list (drop (length (events w)) (events (snd (main e w)))) Check_or_update = 1"
  by (simp add: main_auth_error [OF assms] is_file_event_def count_list_replicate)

theorem auth_error_flow_witness:
  "\<not> accessdev example_env \<and> rose_result example_env = None \<and>
   agent_result example_env = None \<and> answer_of [] = ''yes'' \<and>
   main (example_env\<lparr>auth_result := Some (AuthError [''refused''])\<rparr>)
        (example_world ''umask 022'' [[]]) =
     (Inr (),
      \<lparr>files = [''/home/abc/.bashrc'' \<mapsto> ''umask 022''], stdin = [],
       events = [Print [], Print welcome_text, Check_rose, Start_gpg_agent,
                 Raw_input full_prompt, Check_or_update,
                 Msg Warning ''Authentication check and update failed.'',
                 Msg Todo credentials_text, Msg Todo rerun_text,
                 Msg Info support_text]\<rparr>)"
proof -
  let ?e = "example_env\<lparr>auth_result := Some (AuthError [''refused''])\<rparr>"
  have e1: "\<not> accessdev example_env" and e2: "rose_result example_env = None"
    and e3: "agent_result example_env = None"
    by (simp_all add: example_env_def)
  have h1: "\<not> accessdev ?e" and h2: "rose_result ?e = None" and h3: "agent_result ?e = None"
    and h7: "auth_result ?e = Some (AuthError [''refused''])"
    by (simp_all add: example_env_def)
  have h4: "stdin (example_world ''umask 022'' [[]]) = [] @ [] # []"
    by (simp add: example_world_def)
  have a: "answer_of [] = ''yes''" by code_simp
  have h5: "\<forall>r \<in> set []. answer_of r \<notin> set answers" by simp
  have h6: "answer_of [] = ''yes'' \<or> answer_of [] = ''y''" using a by simp
  from auth_error_flow [OF h1 h2 h3 h4 h5 h6 h7] show ?thesis
    using e1 e2 e3 a by (simp add: example_world_def)
qed




section \<open>Claims about the cache keys\<close>

text \<open>
  Claim C8, as the code has it. The two cache keys of \<open>access.py\<close> are the MD5
  hexdigests of the realm strings \<open><https://access-svn.nci.org.au:443> AccessCollab\<close>
  and \<open><https://access-svn.nci.org.au:443> nemo\<close>, that is of the form
  \<open><scheme://host:port> label\<close> with the URL between angle brackets; a hexdigest has
  32 characters whatever the string, and it is a function of the bytes of the string
  alone, so equal realm strings have equal keys.
\<close>

theorem cache_keys:
  "key = md5_hexdigest (svn_realm_string access_collab) \<and>
   nemo_key = md5_hexdigest (svn_realm_string nemo) \<and>
   length (md5_hexdigest s) = 32 \<and>
   key = ''0384c76bfdca059bc9428ca8eb64a012'' \<and>
   nemo_key = ''07a8d683077d2a8d2003588884c1a0a3''"
proof -
  have "realm = svn_realm_string access_collab" "nemo_realm = svn_realm_string nemo"
    by (simp_all add: realm_def nemo_realm_def svn_realm_string_def access_collab_def nemo_def)
  then show ?thesis
    by (simp add: key_def nemo_key_def md5_length flip: keys_eval)
qed

text \<open>
  The claim as stated fails on the string that is hashed: the canonical string of the
  specification for the first realm has no angle brackets, and its digest is not the
  key of \<open>access.py\<close>.
\<close>

theorem cache_key_canonical_counterexample:
  "realm \<noteq> spec_canonical access_collab \<and>
   key \<noteq> md5_hexdigest (spec_canonical access_collab)"
  by (simp add: keys_eval spec_key_eval)
     (simp add: realm_def spec_canonical_def access_collab_def)

section \<open>Claims about the prompt\<close>

text \<open>
  Claim C9. The loop asks \<open>Do you have a MOSRS account [yes]: \<close> until a line gives
  one of the answers \<open>yes\<close>, \<open>no\<close>, \<open>y\<close>, \<open>n\<close>, once per line read; the answer of a
  line is the line stripped, \<open>yes\<close> when that is empty, in lower case. So \<open>Y\<close>,
  \<open>yes\<close>, \<open>n\<close> and \<open>No\<close> are answers, as is every line whose lower case is one, the
  empty line means \<open>yes\<close>, and \<open>maybe\<close> is asked again.
\<close>

theorem account_prompt_answers:
  assumes "stdin w = bad @ a # rest"
    and "\<forall>r \<in> set bad. answer_of r \<notin> set answers"
    and "answer_of a \<in> set answers"
  shows "request_loop None w =
           (Inr (answer_of a),
            w\<lparr>stdin := rest,
              events := events w @ replicate (Suc (length bad)) (Raw_input full_prompt)\<rparr>) \<and>
         answer_of ''Y'' = ''y'' \<and> answer_of ''yes'' = ''yes'' \<and> answer_of ''n'' = ''n'' \<and>
         answer_of ''No'' = ''no'' \<and> answer_of [] = ''yes'' \<and>
         answer_of ''maybe'' \<notin> set answers \<and>
         (\<forall>r. str_lower r \<in> set answers \<longrightarrow> answer_of r = str_lower r) \<and>
         full_prompt = ''Do you have a MOSRS account [yes]: ''"
proof -
  have "None \<notin> Some ` set answers" by simp
  from request_loop_run [OF this assms] show ?thesis
    by (simp add: answer_of_examples answer_of_lower answers_def full_prompt_def
        account_prompt_def)
qed

theorem account_prompt_answers_witness:
  "answer_of ''maybe'' \<notin> set answers \<and> answer_of ''No'' \<in> set answers \<and>
   request_loop None (example_world [] [''maybe'', ''No'']) =
     (Inr ''no'',
      \<lparr>files = [''/home/abc/.bashrc'' \<mapsto> []], stdin = [],
       events = [Raw_input ''Do you have a MOSRS account [yes]: '',
                 Raw_input ''Do you have a MOSRS account [yes]: '']\<rparr>)"
proof -
  have h1: "stdin (example_world [] [''maybe'', ''No'']) = [''maybe''] @ ''No'' # []"
    by (simp add: example_world_def)
  have a1: "answer_of ''maybe'' \<notin> set answers" and a2: "answer_of ''No'' \<in> set answers"
    and a3: "answer_of ''No'' = ''no''"
    by code_simp+
  have h2: "\<forall>r \<in> set [''maybe'']. answer_of r \<notin> set answers" using a1 by simp
  from account_prompt_answers [OF h1 h2 a2] show ?thesis
    using a1 a2 a3 by (simp add: example_world_def)
qed

end
